theory Spec2Isabelle
  imports Main "HOL-Library.Sublist"
begin

section \<open>Patch application of the resolver (send_pull_request.py)\<close>

text \<open>
  The development embeds \<^verbatim>\<open>load_resolver_output\<close> and \<^verbatim>\<open>apply_patch\<close> of
  \<^verbatim>\<open>src/github_resolver/send_pull_request.py\<close>.  File contents are lists of
  \<^typ>\<open>char\<close>.  Text is ASCII, one character per byte: the decoding that a
  text-mode \<^verbatim>\<open>open\<close> performs is the identity on such files, and files with other
  bytes (which may fail to decode, or decode to characters outside ASCII) are outside
  the model; every property of a file that is read in text mode is stated for ASCII
  content.  The Python primitives the two functions call
  (\<^verbatim>\<open>in\<close> on bytes, \<^verbatim>\<open>str.strip\<close>, \<^verbatim>\<open>str.lstrip\<close>, \<^verbatim>\<open>os.path.join\<close>,
  text-mode \<^verbatim>\<open>open\<close>, \<^verbatim>\<open>readlines\<close> and \<^verbatim>\<open>print\<close>) are written out with the
  semantics of CPython on a POSIX platform: the path separator is \<open>/\<close> and
  \<^verbatim>\<open>os.linesep\<close> is a single linefeed.
\<close>

subsection \<open>Characters and Python string primitives\<close>

abbreviation LF :: char where "LF \<equiv> CHR 0x0A"
abbreviation CR :: char where "CR \<equiv> CHR 0x0D"

text \<open>\<^verbatim>\<open>sub in content\<close> on bytes: \<open>sub\<close> occurs as a contiguous block.\<close>

fun bytes_contains :: "string \<Rightarrow> string \<Rightarrow> bool" where
  "bytes_contains sub [] = (sub = [])"
| "bytes_contains sub (c # cs) = (prefix sub (c # cs) \<or> bytes_contains sub cs)"

text \<open>
  \<^verbatim>\<open>str.isspace\<close> on the ASCII range: tab, linefeed, vertical tab, form feed,
  carriage return, the four separators \<open>0x1C\<close> to \<open>0x1F\<close>, and the space.
\<close>

definition is_space :: "char \<Rightarrow> bool" where
  "is_space c = (c \<in> set [CHR 0x09, CHR 0x0A, CHR 0x0B, CHR 0x0C, CHR 0x0D,
                           CHR 0x1C, CHR 0x1D, CHR 0x1E, CHR 0x1F, CHR 0x20])"

text \<open>
  \<^verbatim>\<open>s.lstrip(chars)\<close> and \<^verbatim>\<open>s.strip(chars)\<close>: the argument is a set of characters,
  not a prefix; every leading (and, for \<^verbatim>\<open>strip\<close>, trailing) character that belongs
  to it is removed.  \<^verbatim>\<open>s.strip(None)\<close> removes whitespace.
\<close>

definition py_lstrip :: "string \<Rightarrow> string \<Rightarrow> string" where
  "py_lstrip chars s = dropWhile (\<lambda>c. c \<in> set chars) s"

definition py_strip :: "string option \<Rightarrow> string \<Rightarrow> string" where
  "py_strip chars s =
     (let strippable = (case chars of None \<Rightarrow> is_space | Some cs \<Rightarrow> (\<lambda>c. c \<in> set cs))
      in rev (dropWhile strippable (rev (dropWhile strippable s))))"

text \<open>\<^verbatim>\<open>os.path.join(a, b)\<close> of \<^verbatim>\<open>posixpath\<close>, for two components.\<close>

definition os_path_join :: "string \<Rightarrow> string \<Rightarrow> string" where
  "os_path_join a b =
     (if prefix ''/'' b then b
      else if a = [] \<or> suffix ''/'' a then a @ b
      else a @ ''/'' @ b)"

text \<open>\<^verbatim>\<open>os.linesep\<close> on POSIX.\<close>

definition os_linesep :: string where
  "os_linesep = [LF]"

subsection \<open>Text-mode files\<close>

text \<open>
  Reading with \<^verbatim>\<open>newline=None\<close> turns on universal newlines: each of CR LF, CR and
  LF ends a line and is handed to the caller as LF.
\<close>

fun translate_universal :: "string \<Rightarrow> string" where
  "translate_universal [] = []"
| "translate_universal [c] = (if c = CR then [LF] else [c])"
| "translate_universal (c # d # cs) =
     (if c = CR \<and> d = LF then LF # translate_universal cs
      else if c = CR then LF # translate_universal (d # cs)
      else c # translate_universal (d # cs))"

text \<open>
  Lines ended by the terminator \<open>nl\<close> only, each returned with its terminator; a last
  line without terminator is returned as it is.
\<close>

fun split_lines :: "string \<Rightarrow> string \<Rightarrow> string list" where
  "split_lines nl [] = []"
| "split_lines nl (c # cs) =
     (if nl \<noteq> [] \<and> prefix nl (c # cs)
      then nl # split_lines nl (drop (length nl) (c # cs))
      else (case split_lines nl cs of
              [] \<Rightarrow> [[c]]
            | l # ls \<Rightarrow> (c # l) # ls))"

text \<open>
  \<^verbatim>\<open>open(path, 'r', newline=newline).readlines()\<close> for the three values the source
  passes: \<^verbatim>\<open>None\<close>, \<^verbatim>\<open>'\n'\<close> and \<^verbatim>\<open>'\r\n'\<close>.  With a string, lines end at that
  string only and nothing is translated.
\<close>

definition readlines :: "string option \<Rightarrow> string \<Rightarrow> string list" where
  "readlines newline content =
     (case newline of
        None \<Rightarrow> split_lines [LF] (translate_universal content)
      | Some nl \<Rightarrow> split_lines nl content)"

text \<open>
  Writing in text mode: with \<^verbatim>\<open>newline=None\<close> every LF written becomes
  \<^verbatim>\<open>os.linesep\<close>; with \<^verbatim>\<open>''\<close> or \<^verbatim>\<open>'\n'\<close> nothing is translated; with another
  string every LF written becomes that string.
\<close>

definition translate_write :: "string option \<Rightarrow> string \<Rightarrow> string" where
  "translate_write newline s =
     (case newline of
        None \<Rightarrow> concat (map (\<lambda>c. if c = LF then os_linesep else [c]) s)
      | Some nl \<Rightarrow>
          (if nl = [] \<or> nl = [LF] then s
           else concat (map (\<lambda>c. if c = LF then nl else [c]) s)))"

text \<open>
  The loop \<^verbatim>\<open>for line in new_content: print(line, file=f)\<close>: \<^verbatim>\<open>print\<close> writes the
  line and then a linefeed; \<open>buf\<close> is what the file holds so far.
\<close>

fun print_lines :: "string option \<Rightarrow> string \<Rightarrow> string list \<Rightarrow> string" where
  "print_lines newline buf [] = buf"
| "print_lines newline buf (line # rest) =
     print_lines newline (buf @ translate_write newline (line @ [LF])) rest"

subsection \<open>Errors, the file system and the console\<close>

text \<open>
  Every exception the two functions can let escape is a value.  \<open>MalformedHunkError\<close>
  is what the hunk applier raises, under the name the spec gives it.
\<close>

datatype error =
    AttributeError
  | FileNotFoundError string
  | OSError string
  | MalformedHunkError
  | ValueError string
  | KeyError string
  | TypeError
  | JSONDecodeError
  | ValidationError

text \<open>
  The part of the world \<^verbatim>\<open>apply_patch\<close> touches: the files by path, whether
  \<^verbatim>\<open>open(path, 'w')\<close> succeeds on a path (its directory exists and may be written),
  and the lines printed so far.
\<close>

record world =
  files :: "string \<rightharpoonup> string"
  can_write :: "string \<Rightarrow> bool"
  stdout :: "string list"

subsection \<open>Parsed diffs\<close>

text \<open>
  \<^verbatim>\<open>whatthepatch.parse_patch\<close> is a third-party parser; \<^verbatim>\<open>apply_patch\<close> is modelled
  from the sequence of records it yields.  The header of a record is \<^verbatim>\<open>None\<close> when
  the parser found no header lines for the section; a header has the two paths (each
  may be absent, as the code's tests \<^verbatim>\<open>not diff.header.new_path\<close> and
  \<^verbatim>\<open>diff.header.old_path and ...\<close> provide for).  The hunks of the file section are in
  the data model of the spec: a hunk is four header numbers and a sequence of tagged
  lines.
\<close>

record header =
  old_path :: "string option"
  new_path :: "string option"

datatype tagged_line = Context string | Added string | Removed string

record hunk =
  old_start :: nat
  old_count :: nat
  new_start :: nat
  new_count :: nat
  lines :: "tagged_line list"

record diff =
  header :: "header option"
  hunks :: "hunk list"

subsection \<open>The hunk applier\<close>

text \<open>
  Modelled from the spec: \<^verbatim>\<open>whatthepatch.apply_diff\<close>, the third-party hunk applier
  that \<^verbatim>\<open>apply_patch\<close> calls; its code is not in the repository.  The definitions
  follow section 4.3 of the spec.  A cursor counts the original lines consumed so far;
  \<open>orig\<close> holds the original lines from the cursor on and \<open>out\<close> the output so far.
  A Context line must equal the next original line, which is copied; an Added line is
  appended; a Removed line must equal the next original line, which is dropped.
\<close>

fun walk_hunk ::
  "tagged_line list \<Rightarrow> string list \<Rightarrow> string list \<Rightarrow> error + (string list \<times> string list)" where
  "walk_hunk [] orig out = Inr (orig, out)"
| "walk_hunk (Context t # ts) orig out =
     (case orig of
        [] \<Rightarrow> Inl MalformedHunkError
      | l # ls \<Rightarrow> if l = t then walk_hunk ts ls (out @ [l]) else Inl MalformedHunkError)"
| "walk_hunk (Added t # ts) orig out = walk_hunk ts orig (out @ [t])"
| "walk_hunk (Removed t # ts) orig out =
     (case orig of
        [] \<Rightarrow> Inl MalformedHunkError
      | l # ls \<Rightarrow> if l = t then walk_hunk ts ls out else Inl MalformedHunkError)"

text \<open>
  Before a hunk, the original lines strictly before its starting offset (the 1-based
  \<open>old_start\<close> made 0-based) that were not yet copied are copied; a starting offset
  beyond the end of the original is an error.  After the last hunk the remaining
  original lines are copied.
\<close>

fun apply_hunks :: "hunk list \<Rightarrow> nat \<Rightarrow> string list \<Rightarrow> string list \<Rightarrow> error + string list" where
  "apply_hunks [] cursor orig out = Inr (out @ orig)"
| "apply_hunks (h # hs) cursor orig out =
     (let offset = old_start h - 1 in
      if cursor + length orig < offset then Inl MalformedHunkError
      else
        (case walk_hunk (lines h) (drop (offset - cursor) orig) (out @ take (offset - cursor) orig) of
           Inl e \<Rightarrow> Inl e
         | Inr (orig', out') \<Rightarrow> apply_hunks hs (cursor + (length orig - length orig')) orig' out'))"

definition apply_diff :: "diff \<Rightarrow> string list \<Rightarrow> error + string list" where
  "apply_diff d split_content = apply_hunks (hunks d) 0 split_content []"

subsection \<open>apply_patch\<close>

text \<open>The line-ending detection on the bytes of the original file.\<close>

definition detect_newline :: "string \<Rightarrow> string option" where
  "detect_newline original_content =
     (if bytes_contains [CR, LF] original_content then Some [CR, LF]
      else if bytes_contains [LF] original_content then Some [LF]
      else None)"

text \<open>
  \<^verbatim>\<open>[x.strip(newline) for x in f.readlines()]\<close> on a file opened with the detected
  \<^verbatim>\<open>newline\<close>.  The bytes are taken as the text they decode to, which they are for
  ASCII content.
\<close>

definition split_content_of :: "string \<Rightarrow> string list" where
  "split_content_of original_content =
     (let newline = detect_newline original_content
      in map (py_strip newline) (readlines newline original_content))"

text \<open>
  The two paths of a section.  The old path is \<^verbatim>\<open>None\<close> when the header has none,
  an empty one or \<^verbatim>\<open>/dev/null\<close>.
\<close>

definition old_file_of :: "string \<Rightarrow> header \<Rightarrow> string option" where
  "old_file_of repo_dir h =
     (case old_path h of
        None \<Rightarrow> None
      | Some p \<Rightarrow>
          if p \<noteq> [] \<and> p \<noteq> ''/dev/null''
          then Some (os_path_join repo_dir (py_lstrip ''b/'' p))
          else None)"

definition new_file_of :: "string \<Rightarrow> string \<Rightarrow> string" where
  "new_file_of repo_dir p = os_path_join repo_dir (py_lstrip ''b/'' p)"

text \<open>
  The branch \<^verbatim>\<open>if old_path: ... else: ...\<close>: the line ending to write with and the
  original lines.  Opening a file that does not exist raises.
\<close>

definition read_original :: "string option \<Rightarrow> world \<Rightarrow> error + (string option \<times> string list)" where
  "read_original old_file w =
     (case old_file of
        None \<Rightarrow> Inr (Some [LF], [])
      | Some p \<Rightarrow>
          if p = [] then Inr (Some [LF], [])
          else
            (case files w p of
               None \<Rightarrow> Inl (FileNotFoundError p)
             | Some original_content \<Rightarrow>
                 Inr (detect_newline original_content, split_content_of original_content)))"

text \<open>\<^verbatim>\<open>open(new_path, 'w', newline=newline)\<close> and the loop of \<^verbatim>\<open>print\<close>.\<close>

definition write_file :: "string \<Rightarrow> string option \<Rightarrow> string list \<Rightarrow> world \<Rightarrow> error + world" where
  "write_file p newline new_content w =
     (if can_write w p
      then Inr (w\<lparr>files := (files w)(p \<mapsto> print_lines newline [] new_content)\<rparr>)
      else Inl (OSError p))"

text \<open>
  One turn of the loop \<^verbatim>\<open>for diff in diffs\<close>.  \<^verbatim>\<open>diff.header.new_path\<close> on a
  record whose header is \<^verbatim>\<open>None\<close> raises \<^verbatim>\<open>AttributeError\<close>.
\<close>

definition apply_section :: "string \<Rightarrow> diff \<Rightarrow> world \<Rightarrow> error + world" where
  "apply_section repo_dir d w =
     (case header d of
        None \<Rightarrow> Inl AttributeError
      | Some h \<Rightarrow>
          (case new_path h of
             None \<Rightarrow> Inr (w\<lparr>stdout := stdout w @ [''Warning: Could not determine file to patch'']\<rparr>)
           | Some p \<Rightarrow>
               if p = []
               then Inr (w\<lparr>stdout := stdout w @ [''Warning: Could not determine file to patch'']\<rparr>)
               else
                 (case read_original (old_file_of repo_dir h) w of
                    Inl e \<Rightarrow> Inl e
                  | Inr (newline, split_content) \<Rightarrow>
                      (case apply_diff d split_content of
                         Inl e \<Rightarrow> Inl e
                       | Inr new_content \<Rightarrow>
                           write_file (new_file_of repo_dir p) newline new_content w))))"

text \<open>
  The loop.  An exception leaves the function at once: the result is the exception
  together with the world as it is at that moment.
\<close>

fun apply_sections :: "string \<Rightarrow> diff list \<Rightarrow> world \<Rightarrow> error \<times> world + world" where
  "apply_sections repo_dir [] w = Inr w"
| "apply_sections repo_dir (d # ds) w =
     (case apply_section repo_dir d w of
        Inl e \<Rightarrow> Inl (e, w)
      | Inr w' \<Rightarrow> apply_sections repo_dir ds w')"

definition apply_patch :: "string \<Rightarrow> diff list \<Rightarrow> world \<Rightarrow> error \<times> world + world" where
  "apply_patch repo_dir diffs w =
     (case apply_sections repo_dir diffs w of
        Inl failure \<Rightarrow> Inl failure
      | Inr w' \<Rightarrow> Inr (w'\<lparr>stdout := stdout w' @ [''Patch applied successfully'']\<rparr>))"

subsection \<open>Diffs between two sequences of lines\<close>

text \<open>
  The lines a hunk consumes from the old file (Context and Removed) and the lines it
  produces in the new file (Context and Added).
\<close>

fun old_lines :: "tagged_line list \<Rightarrow> string list" where
  "old_lines [] = []"
| "old_lines (Context t # ts) = t # old_lines ts"
| "old_lines (Added t # ts) = old_lines ts"
| "old_lines (Removed t # ts) = t # old_lines ts"

fun new_lines :: "tagged_line list \<Rightarrow> string list" where
  "new_lines [] = []"
| "new_lines (Context t # ts) = t # new_lines ts"
| "new_lines (Added t # ts) = t # new_lines ts"
| "new_lines (Removed t # ts) = new_lines ts"

text \<open>
  \<open>diff_from c a b hs\<close>: the hunks \<open>hs\<close> are a unified diff that turns the lines \<open>a\<close>
  into the lines \<open>b\<close>, where \<open>a\<close> starts at line \<open>c + 1\<close> of the old file.  Between
  two hunks the files agree (\<open>pre\<close>); a hunk lies on the old file at its 1-based
  \<open>old_start\<close> and carries at least one Context or Removed line, as the hunks of a diff
  with context lines do.  A hunk of Added lines only stands at the top, with
  \<open>old_start\<close> 0, as in the diff from an empty file.
\<close>

inductive diff_from :: "nat \<Rightarrow> string list \<Rightarrow> string list \<Rightarrow> hunk list \<Rightarrow> bool" where
  no_hunk: "diff_from c a a []"
| next_hunk:
    "old_start h = c + length pre + 1 \<Longrightarrow>
     old_lines (lines h) \<noteq> [] \<Longrightarrow>
     diff_from (c + length pre + length (old_lines (lines h))) a b hs \<Longrightarrow>
     diff_from c (pre @ old_lines (lines h) @ a) (pre @ new_lines (lines h) @ b) (h # hs)"
| top_insertion:
    "old_start h = 0 \<Longrightarrow>
     old_lines (lines h) = [] \<Longrightarrow>
     diff_from 0 a b hs \<Longrightarrow>
     diff_from 0 a (new_lines (lines h) @ b) (h # hs)"

text \<open>A file whose lines \<open>ls\<close> are each followed by the line ending \<open>nl\<close>.\<close>

definition join_lines :: "string \<Rightarrow> string list \<Rightarrow> string" where
  "join_lines nl ls = concat (map (\<lambda>l. l @ nl) ls)"

subsection \<open>load_resolver_output\<close>

text \<open>
  The values \<^verbatim>\<open>json.loads\<close> builds.  A dictionary is the list of its items, each key
  once; numbers are the integers (a JSON number with a fraction or an exponent is not
  part of the model).
\<close>

datatype json =
    JNull
  | JBool bool
  | JInt int
  | JStr string
  | JArr "json list"
  | JObj "(string \<times> json) list"










subsection \<open>Notions the properties are stated with\<close>

text \<open>
  The line ending a file opened for writing with \<^verbatim>\<open>newline\<close> puts after a line:
  the platform's for \<^verbatim>\<open>None\<close>, a linefeed for \<^verbatim>\<open>''\<close>, the string itself otherwise.
\<close>

definition chosen_ending :: "string option \<Rightarrow> string" where
  "chosen_ending newline =
     (case newline of None \<Rightarrow> os_linesep | Some nl \<Rightarrow> if nl = [] then [LF] else nl)"

text \<open>Lines that hold neither a carriage return nor a linefeed.\<close>

definition plain_lines :: "string list \<Rightarrow> bool" where
  "plain_lines ls = (\<forall>l\<in>set ls. CR \<notin> set l \<and> LF \<notin> set l)"

text \<open>Bytes that are ASCII text: each is below \<open>0x80\<close>.\<close>

definition ascii :: "string \<Rightarrow> bool" where
  "ascii s = (\<forall>c\<in>set s. (of_char c :: nat) < 128)"

text \<open>A line that neither starts nor ends with whitespace.\<close>

definition unpadded :: "string \<Rightarrow> bool" where
  "unpadded l = (l = [] \<or> (\<not> is_space (hd l) \<and> \<not> is_space (last l)))"

section \<open>Properties\<close>

subsection \<open>Line-ending detection\<close>

lemma bytes_contains_sublist: "bytes_contains sub s = sublist sub s"
  by (induction s) (simp_all add: sublist_Cons_right)

lemma bytes_contains_iff:
  "bytes_contains sub s \<longleftrightarrow> (\<exists>before after. s = before @ sub @ after)"
  by (simp add: bytes_contains_sublist sublist_def)

lemma bytes_contains_single: "bytes_contains [c] s \<longleftrightarrow> c \<in> set s"
  by (induction s) auto

lemma CR_not_contained:
  "CR \<notin> set content \<Longrightarrow> \<not> bytes_contains [CR, LF] content"
  by (auto simp add: bytes_contains_iff)

lemma LF_not_contained:
  "LF \<notin> set content \<Longrightarrow> \<not> bytes_contains [CR, LF] content"
  by (auto simp add: bytes_contains_iff)

text \<open>
  Claim C3.  The detector answers CRLF when the bytes hold a carriage return directly
  followed by a linefeed somewhere, otherwise LF when they hold a linefeed, otherwise
  \<^verbatim>\<open>None\<close>.
\<close>

theorem detect_newline_cases:
  "detect_newline content =
     (if \<exists>before after. content = before @ [CR, LF] @ after then Some [CR, LF]
      else if LF \<in> set content then Some [LF]
      else None)"
  unfolding detect_newline_def bytes_contains_single
  by (simp only: bytes_contains_iff)

subsection \<open>Writing the lines\<close>

lemma translate_write_append:
  "translate_write newline (s @ t) = translate_write newline s @ translate_write newline t"
  by (simp add: translate_write_def split: option.splits)

lemma translate_write_LF: "translate_write newline [LF] = chosen_ending newline"
  by (simp add: translate_write_def chosen_ending_def split: option.splits)

lemma print_lines_eq:
  "print_lines newline buf new_content =
     buf @ concat (map (\<lambda>line. translate_write newline line @ chosen_ending newline) new_content)"
  by (induction new_content arbitrary: buf)
     (simp_all add: translate_write_append translate_write_LF)

lemma translate_write_no_LF: "LF \<notin> set s \<Longrightarrow> translate_write newline s = s"
proof -
  assume "LF \<notin> set s"
  then have "concat (map (\<lambda>c. if c = LF then nl else [c]) s) = s" for nl
    by (induction s) auto
  then show ?thesis by (simp add: translate_write_def split: option.splits)
qed

lemma translate_write_id:
  "newline = None \<or> newline = Some [LF] \<Longrightarrow> translate_write newline s = s"
proof -
  have "concat (map (\<lambda>c. if c = LF then [LF] else [c]) s) = s"
    by (induction s) auto
  moreover assume "newline = None \<or> newline = Some [LF]"
  ultimately show ?thesis
    unfolding translate_write_def os_linesep_def by auto
qed



lemma print_lines_None: "print_lines None [] ls = join_lines [LF] ls"
  by (simp add: print_lines_eq translate_write_id chosen_ending_def os_linesep_def
      join_lines_def)

text \<open>
  Claim C4.  For a file whose bytes hold neither CR LF nor LF the detector answers
  \<^verbatim>\<open>None\<close>, and a file opened for writing with that answer gets every line of the new
  content followed by one linefeed.  For such a file of ASCII text the whole turn of the
  loop is determined: the file written for the section is the lines the hunk applier
  returns, each followed by one linefeed.
\<close>

theorem no_newline_defaults_to_LF:
  assumes no_crlf: "\<not> (\<exists>before after. content = before @ [CR, LF] @ after)"
    and no_lf: "LF \<notin> set content"
  shows "detect_newline content = None \<and>
         (ascii (concat new_content) \<and> can_write w p \<longrightarrow>
            write_file p (detect_newline content) new_content w =
              Inr (w\<lparr>files := (files w)(p \<mapsto> join_lines [LF] new_content)\<rparr>)) \<and>
         (ascii content \<and> ascii (concat new_content) \<and>
          header d = Some h \<and> old_file_of repo_dir h = Some old_file \<and> old_file \<noteq> [] \<and>
          files w old_file = Some content \<and> new_path h = Some q \<and> q \<noteq> [] \<and>
          apply_diff d (split_content_of content) = Inr new_content \<and>
          can_write w (new_file_of repo_dir q) \<longrightarrow>
            apply_section repo_dir d w =
              Inr (w\<lparr>files := (files w)(new_file_of repo_dir q \<mapsto>
                     join_lines [LF] new_content)\<rparr>))"
proof -
  have none: "detect_newline content = None"
    using no_lf by (simp add: detect_newline_def bytes_contains_single LF_not_contained)
  have writer: "write_file p None new_content w =
      Inr (w\<lparr>files := (files w)(p \<mapsto> join_lines [LF] new_content)\<rparr>)"
    if "can_write w p" for p
    using that by (simp add: write_file_def print_lines_None)
  have "apply_section repo_dir d w =
      Inr (w\<lparr>files := (files w)(new_file_of repo_dir q \<mapsto> join_lines [LF] new_content)\<rparr>)"
    if "header d = Some h" "old_file_of repo_dir h = Some old_file" "old_file \<noteq> []"
      "files w old_file = Some content" "new_path h = Some q" "q \<noteq> []"
      "apply_diff d (split_content_of content) = Inr new_content"
      "can_write w (new_file_of repo_dir q)"
    using that none writer [OF that(8)]
    by (simp add: apply_section_def read_original_def)
  with none writer show ?thesis by simp
qed

theorem no_newline_defaults_to_LF_witness:
  "LF \<notin> set ''x'' \<and> ascii ''x'' \<and> detect_newline ''x'' = None \<and>
   write_file ''r/f'' (detect_newline ''x'') [''y'', ''z'']
     \<lparr>files = [''r/f'' \<mapsto> ''x''], can_write = (\<lambda>p. True), stdout = []\<rparr> =
   Inr \<lparr>files = [''r/f'' \<mapsto> ''y'' @ [LF] @ ''z'' @ [LF]], can_write = (\<lambda>p. True),
        stdout = []\<rparr> \<and>
   apply_section ''r''
     \<lparr>header = Some \<lparr>old_path = Some ''f'', new_path = Some ''f''\<rparr>,
      hunks = [\<lparr>old_start = 1, old_count = 1, new_start = 1, new_count = 1,
                lines = [Removed ''x'', Added ''y'']\<rparr>]\<rparr>
     \<lparr>files = [''r/f'' \<mapsto> ''x''], can_write = (\<lambda>p. True), stdout = []\<rparr> =
   Inr \<lparr>files = [''r/f'' \<mapsto> ''y'' @ [LF]], can_write = (\<lambda>p. True), stdout = []\<rparr>"
proof -
  let ?h = "\<lparr>old_path = Some ''f'', new_path = Some ''f''\<rparr>"
  let ?d = "\<lparr>header = Some ?h,
      hunks = [\<lparr>old_start = 1, old_count = 1, new_start = 1, new_count = 1,
                lines = [Removed ''x'', Added ''y'']\<rparr>]\<rparr>"
  let ?w = "\<lparr>files = [''r/f'' \<mapsto> ''x''], can_write = (\<lambda>p. True), stdout = []\<rparr>"
  have no_crlf: "\<not> (\<exists>before after. ''x'' = before @ [CR, LF] @ after)"
    using bytes_contains_iff [of "[CR, LF]" "''x''"] by simp
  have no_lf: "LF \<notin> set ''x''" by simp
  have seven_bit: "ascii ''x''" "ascii (concat [''y'', ''z''])" "ascii (concat [''y''])"
    by (simp_all add: ascii_def)
  have new_file: "new_file_of ''r'' ''f'' = ''r/f''"
    by (simp add: new_file_of_def os_path_join_def py_lstrip_def suffix_def)
  have writable: "can_write ?w ''r/f''" by simp
  have turn: "ascii ''x'' \<and> ascii (concat [''y'']) \<and>
      header ?d = Some ?h \<and> old_file_of ''r'' ?h = Some ''r/f'' \<and> ''r/f'' \<noteq> [] \<and>
      files ?w ''r/f'' = Some ''x'' \<and> new_path ?h = Some ''f'' \<and> ''f'' \<noteq> [] \<and>
      apply_diff ?d (split_content_of ''x'') = Inr [''y''] \<and>
      can_write ?w (new_file_of ''r'' ''f'')"
    using seven_bit
    by (simp add: old_file_of_def os_path_join_def py_lstrip_def suffix_def apply_diff_def
        split_content_of_def detect_newline_def readlines_def py_strip_def is_space_def)
  note claim = no_newline_defaults_to_LF [OF no_crlf no_lf]
  from claim [THEN conjunct1]
    claim [THEN conjunct2, THEN conjunct1, THEN mp, OF conjI [OF seven_bit(2) writable]]
    claim [THEN conjunct2, THEN conjunct2, THEN mp, OF turn]
    no_lf seven_bit(1)
  show ?thesis by (simp add: new_file join_lines_def)
qed

subsection \<open>The loop over the sections\<close>

lemma apply_sections_append:
  "apply_sections repo_dir (before @ after) w =
     (case apply_sections repo_dir before w of
        Inl failure \<Rightarrow> Inl failure
      | Inr w1 \<Rightarrow> apply_sections repo_dir after w1)"
  by (induction before arbitrary: w) (simp_all split: sum.splits)

lemma apply_section_skip:
  assumes "header d = Some h" and "new_path h = None \<or> new_path h = Some []"
  shows "apply_section repo_dir d w =
           Inr (w\<lparr>stdout := stdout w @ [''Warning: Could not determine file to patch'']\<rparr>)"
  using assms by (auto simp add: apply_section_def)

text \<open>
  Claim C5 (the code differs).  The test \<^verbatim>\<open>not diff.header.new_path\<close> skips a section
  whose header has no new path, but it reads the header first: for a section without
  header, which is how the parser hands over a section whose paths it could not
  determine, the run ends with \<^verbatim>\<open>AttributeError\<close>, no warning is printed and the
  section after it, which alone creates its file, is not applied.  The same two sections
  with a header that only lacks the new path give the warning and the created file.
\<close>

theorem section_without_header_raises:
  "apply_patch ''r''
     [\<lparr>header = None,
       hunks = [\<lparr>old_start = 1, old_count = 1, new_start = 1, new_count = 1,
                 lines = [Removed ''a'', Added ''b'']\<rparr>]\<rparr>,
      \<lparr>header = Some \<lparr>old_path = Some ''/dev/null'', new_path = Some ''newfile.txt''\<rparr>,
       hunks = [\<lparr>old_start = 0, old_count = 0, new_start = 1, new_count = 2,
                 lines = [Added ''hello'', Added ''world'']\<rparr>]\<rparr>]
     \<lparr>files = Map.empty, can_write = (\<lambda>p. True), stdout = []\<rparr> =
   Inl (AttributeError, \<lparr>files = Map.empty, can_write = (\<lambda>p. True), stdout = []\<rparr>) \<and>
   apply_patch ''r''
     [\<lparr>header = Some \<lparr>old_path = Some ''a.txt'', new_path = None\<rparr>,
       hunks = [\<lparr>old_start = 1, old_count = 1, new_start = 1, new_count = 1,
                 lines = [Removed ''a'', Added ''b'']\<rparr>]\<rparr>,
      \<lparr>header = Some \<lparr>old_path = Some ''/dev/null'', new_path = Some ''newfile.txt''\<rparr>,
       hunks = [\<lparr>old_start = 0, old_count = 0, new_start = 1, new_count = 2,
                 lines = [Added ''hello'', Added ''world'']\<rparr>]\<rparr>]
     \<lparr>files = Map.empty, can_write = (\<lambda>p. True), stdout = []\<rparr> =
   Inr \<lparr>files = [''r/newfile.txt'' \<mapsto> ''hello'' @ [LF] @ ''world'' @ [LF]],
        can_write = (\<lambda>p. True),
        stdout = [''Warning: Could not determine file to patch'',
                  ''Patch applied successfully'']\<rparr>"
  by (simp add: apply_patch_def apply_section_def old_file_of_def read_original_def
      apply_diff_def write_file_def new_file_of_def os_path_join_def py_lstrip_def suffix_def
      translate_write_def)

text \<open>
  Claim C9, as amended.  When the sections before a section succeed and that section
  raises, \<^verbatim>\<open>apply_patch\<close> ends at once with that exception: what the earlier sections
  wrote stays, no later section is attempted (the result does not depend on them) and
  the success message is not printed.
\<close>

theorem failure_leaves_at_once:
  assumes "apply_sections repo_dir before w = Inr w1"
    and "apply_section repo_dir d w1 = Inl e"
  shows "apply_patch repo_dir (before @ d # after) w = Inl (e, w1)"
  using assms by (simp add: apply_patch_def apply_sections_append)

theorem failure_leaves_at_once_witness:
  "apply_patch ''r''
     [\<lparr>header = Some \<lparr>old_path = Some ''/dev/null'', new_path = Some ''one.txt''\<rparr>,
       hunks = [\<lparr>old_start = 0, old_count = 0, new_start = 1, new_count = 1,
                 lines = [Added ''1'']\<rparr>]\<rparr>,
      \<lparr>header = Some \<lparr>old_path = Some ''missing.txt'', new_path = Some ''missing.txt''\<rparr>,
       hunks = []\<rparr>,
      \<lparr>header = Some \<lparr>old_path = Some ''/dev/null'', new_path = Some ''two.txt''\<rparr>,
       hunks = [\<lparr>old_start = 0, old_count = 0, new_start = 1, new_count = 1,
                 lines = [Added ''2'']\<rparr>]\<rparr>]
     \<lparr>files = Map.empty, can_write = (\<lambda>p. True), stdout = []\<rparr> =
   Inl (FileNotFoundError ''r/missing.txt'',
        \<lparr>files = [''r/one.txt'' \<mapsto> ''1'' @ [LF]], can_write = (\<lambda>p. True), stdout = []\<rparr>)"
proof -
  let ?one = "\<lparr>header = Some \<lparr>old_path = Some ''/dev/null'', new_path = Some ''one.txt''\<rparr>,
       hunks = [\<lparr>old_start = 0, old_count = 0, new_start = 1, new_count = 1,
                 lines = [Added ''1'']\<rparr>]\<rparr>"
  let ?missing = "\<lparr>header = Some \<lparr>old_path = Some ''missing.txt'', new_path = Some ''missing.txt''\<rparr>,
       hunks = []\<rparr>"
  let ?two = "\<lparr>header = Some \<lparr>old_path = Some ''/dev/null'', new_path = Some ''two.txt''\<rparr>,
       hunks = [\<lparr>old_start = 0, old_count = 0, new_start = 1, new_count = 1,
                 lines = [Added ''2'']\<rparr>]\<rparr>"
  let ?w = "\<lparr>files = Map.empty, can_write = (\<lambda>p. True), stdout = []\<rparr>"
  let ?w1 = "\<lparr>files = [''r/one.txt'' \<mapsto> ''1'' @ [LF]], can_write = (\<lambda>p. True), stdout = []\<rparr>"
  have first: "apply_sections ''r'' [?one] ?w = Inr ?w1"
    by (simp add: apply_section_def old_file_of_def read_original_def apply_diff_def
        write_file_def new_file_of_def os_path_join_def py_lstrip_def suffix_def
        translate_write_def)
  have second: "apply_section ''r'' ?missing ?w1 = Inl (FileNotFoundError ''r/missing.txt'')"
    by (simp add: apply_section_def old_file_of_def read_original_def os_path_join_def
        py_lstrip_def suffix_def)
  from failure_leaves_at_once [OF first second, of "[?two]"] show ?thesis by simp
qed

text \<open>
  The claim as the spec states it fails: the first section below raises (its file does
  not exist), the run ends there with the files untouched, and the second section, which
  alone creates its file, is never attempted.
\<close>

theorem failure_not_isolated_counterexample:
  "apply_patch ''r''
     [\<lparr>header = Some \<lparr>old_path = Some ''missing.txt'', new_path = Some ''missing.txt''\<rparr>,
       hunks = []\<rparr>,
      \<lparr>header = Some \<lparr>old_path = Some ''/dev/null'', new_path = Some ''two.txt''\<rparr>,
       hunks = [\<lparr>old_start = 0, old_count = 0, new_start = 1, new_count = 1,
                 lines = [Added ''2'']\<rparr>]\<rparr>]
     \<lparr>files = Map.empty, can_write = (\<lambda>p. True), stdout = []\<rparr> =
   Inl (FileNotFoundError ''r/missing.txt'',
        \<lparr>files = Map.empty, can_write = (\<lambda>p. True), stdout = []\<rparr>) \<and>
   apply_patch ''r''
     [\<lparr>header = Some \<lparr>old_path = Some ''/dev/null'', new_path = Some ''two.txt''\<rparr>,
       hunks = [\<lparr>old_start = 0, old_count = 0, new_start = 1, new_count = 1,
                 lines = [Added ''2'']\<rparr>]\<rparr>]
     \<lparr>files = Map.empty, can_write = (\<lambda>p. True), stdout = []\<rparr> =
   Inr \<lparr>files = [''r/two.txt'' \<mapsto> ''2'' @ [LF]], can_write = (\<lambda>p. True),
        stdout = [''Patch applied successfully'']\<rparr>"
  by (simp add: apply_patch_def apply_section_def old_file_of_def read_original_def
      apply_diff_def write_file_def new_file_of_def os_path_join_def py_lstrip_def suffix_def
      translate_write_def)

subsection \<open>Reading, patching and writing back\<close>

lemma split_lines_line:
  assumes "nl \<noteq> []" and "hd nl \<notin> set l"
  shows "split_lines nl (l @ nl @ rest) = (l @ nl) # split_lines nl rest"
  using assms
proof (induction l)
  case Nil
  then obtain c cs where "nl = c # cs" by (cases nl) auto
  then show ?case by simp
next
  case (Cons x xs)
  then obtain c cs where nl: "nl = c # cs" by (cases nl) auto
  with Cons.prems have "x \<noteq> c" by auto
  then have "\<not> prefix nl (x # xs @ nl @ rest)" by (simp add: nl)
  moreover have "split_lines nl (xs @ nl @ rest) = (xs @ nl) # split_lines nl rest"
    using Cons by simp
  ultimately show ?case by simp
qed

lemma split_lines_unterminated:
  assumes "nl \<noteq> []" and "hd nl \<notin> set l"
  shows "split_lines nl l = (if l = [] then [] else [l])"
  using assms
proof (induction l)
  case Nil
  then show ?case by simp
next
  case (Cons x xs)
  then obtain c cs where nl: "nl = c # cs" by (cases nl) auto
  with Cons.prems have "x \<noteq> c" by auto
  then have "\<not> prefix nl (x # xs)" by (simp add: nl)
  moreover have "split_lines nl xs = (if xs = [] then [] else [xs])"
    using Cons by simp
  ultimately show ?case by simp
qed

lemma split_lines_join:
  assumes "nl \<noteq> []" and "\<forall>l\<in>set ls. hd nl \<notin> set l"
  shows "split_lines nl (join_lines nl ls @ rest) = map (\<lambda>l. l @ nl) ls @ split_lines nl rest"
  using assms(2)
proof (induction ls)
  case Nil
  then show ?case by (simp add: join_lines_def)
next
  case (Cons l ls)
  then have "split_lines nl (l @ nl @ join_lines nl ls @ rest) =
      (l @ nl) # split_lines nl (join_lines nl ls @ rest)"
    using split_lines_line [OF assms(1)] by simp
  with Cons show ?case by (simp add: join_lines_def)
qed

lemma translate_universal_plain: "CR \<notin> set s \<Longrightarrow> translate_universal s = s"
  by (induction s rule: translate_universal.induct) auto

lemma py_strip_line:
  assumes "\<forall>c\<in>set l. c \<notin> set nl"
  shows "py_strip (Some nl) (l @ nl) = l"
proof -
  let ?P = "\<lambda>c. c \<in> set nl"
  have leading: "dropWhile ?P (l @ nl) = (if l = [] then [] else l @ nl)"
    using assms by (cases l) (auto simp add: dropWhile_append)
  have trailing: "dropWhile ?P (rev nl @ rev l) = rev l"
    using assms by (cases "rev l") (auto simp add: dropWhile_append)
  show ?thesis
    using leading trailing by (simp add: py_strip_def)
qed

lemma py_strip_untouched:
  assumes "\<forall>c\<in>set l. c \<notin> set nl"
  shows "py_strip (Some nl) l = l"
proof -
  have "dropWhile (\<lambda>c. c \<in> set nl) l = l"
    using assms by (cases l) auto
  moreover have "dropWhile (\<lambda>c. c \<in> set nl) (rev l) = rev l"
    using assms by (cases "rev l") (auto simp add: dropWhile_eq_self_iff)
  ultimately show ?thesis by (simp add: py_strip_def)
qed

lemma py_strip_unpadded:
  assumes "unpadded l"
  shows "py_strip None l = l"
proof -
  have "dropWhile is_space l = l"
    using assms by (auto simp add: unpadded_def dropWhile_eq_self_iff)
  moreover have "dropWhile is_space (rev l) = rev l"
    using assms by (auto simp add: unpadded_def dropWhile_eq_self_iff hd_rev)
  ultimately show ?thesis by (simp add: py_strip_def)
qed

lemma walk_hunk_old_new:
  "walk_hunk ts (old_lines ts @ rest) out = Inr (rest, out @ new_lines ts)"
  by (induction ts arbitrary: out rule: old_lines.induct) simp_all

lemma walk_hunk_added: "old_lines ts = [] \<Longrightarrow> walk_hunk ts a out = Inr (a, out @ new_lines ts)"
  using walk_hunk_old_new [of ts a out] by simp

lemma apply_hunks_diff_from:
  "diff_from c a b hs \<Longrightarrow> apply_hunks hs c a out = Inr (out @ b)"
proof (induction arbitrary: out rule: diff_from.induct)
  case (no_hunk c a)
  then show ?case by simp
next
  case (next_hunk h c pre a b hs)
  from next_hunk.IH [of "out @ pre @ new_lines (lines h)"] next_hunk.hyps(1)
  show ?case
    by (simp add: walk_hunk_old_new add.assoc)
next
  case (top_insertion h a b hs)
  from top_insertion.IH [of "out @ new_lines (lines h)"] top_insertion.hyps(1,2)
  show ?case
    by (simp add: walk_hunk_added)
qed

lemma apply_diff_diff_from:
  "diff_from 0 a b (hunks d) \<Longrightarrow> apply_diff d a = Inr b"
  by (simp add: apply_diff_def apply_hunks_diff_from)

lemma set_join_lines:
  "set (join_lines nl ls) = (\<Union>l\<in>set ls. set l) \<union> (if ls = [] then {} else set nl)"
  by (induction ls) (auto simp add: join_lines_def)

lemma detect_newline_join:
  assumes "nl = [LF] \<or> nl = [CR, LF]" and "ls \<noteq> []" and "plain_lines (ls @ [final])"
  shows "detect_newline (join_lines nl ls @ final) = Some nl"
proof -
  from assms(2) obtain l rest where ls: "ls = l # rest" by (cases ls) auto
  from assms(1) show ?thesis
  proof
    assume nl: "nl = [LF]"
    have "CR \<notin> set (join_lines nl ls @ final)"
      using assms(3) by (auto simp add: set_join_lines nl plain_lines_def)
    then have "\<not> bytes_contains [CR, LF] (join_lines nl ls @ final)"
      by (rule CR_not_contained)
    moreover have "LF \<in> set (join_lines nl ls @ final)"
      using assms(2) by (simp add: set_join_lines nl)
    ultimately show ?thesis
      by (simp add: detect_newline_def bytes_contains_single nl)
  next
    assume nl: "nl = [CR, LF]"
    have "join_lines nl ls @ final = l @ [CR, LF] @ (join_lines nl rest @ final)"
      by (simp add: join_lines_def ls nl)
    then have "bytes_contains [CR, LF] (join_lines nl ls @ final)"
      unfolding bytes_contains_iff by blast
    then show ?thesis by (simp add: detect_newline_def nl)
  qed
qed

lemma detect_newline_unterminated:
  assumes "plain_lines [final]"
  shows "detect_newline final = None"
  using assms
  by (simp add: detect_newline_def bytes_contains_single LF_not_contained plain_lines_def)

lemma split_content_of_terminated:
  assumes "nl = [LF] \<or> nl = [CR, LF]" and "ls \<noteq> []" and "plain_lines (ls @ [final])"
  shows "split_content_of (join_lines nl ls @ final) = ls @ (if final = [] then [] else [final])"
proof -
  have nl: "nl \<noteq> []" and heads: "\<forall>l\<in>set ls. hd nl \<notin> set l" and tail: "hd nl \<notin> set final"
    using assms(1,3) by (auto simp add: plain_lines_def)
  have "readlines (Some nl) (join_lines nl ls @ final) =
      map (\<lambda>l. l @ nl) ls @ (if final = [] then [] else [final])"
    by (simp add: readlines_def split_lines_join [OF nl heads]
        split_lines_unterminated [OF nl tail])
  moreover have "py_strip (Some nl) (l @ nl) = l" if "l \<in> set ls" for l
    using that assms(1,3) by (intro py_strip_line) (auto simp add: plain_lines_def)
  moreover have "py_strip (Some nl) final = final"
    using assms(1,3) by (intro py_strip_untouched) (auto simp add: plain_lines_def)
  ultimately show ?thesis
    by (simp add: split_content_of_def detect_newline_join [OF assms] map_idI)
qed

lemma split_content_of_unterminated:
  assumes "plain_lines [final]" and "unpadded final"
  shows "split_content_of final = (if final = [] then [] else [final])"
proof -
  have "translate_universal final = final" and "hd [LF] \<notin> set final"
    using assms(1) by (simp_all add: translate_universal_plain plain_lines_def)
  then have "readlines None final = (if final = [] then [] else [final])"
    by (simp add: readlines_def split_lines_unterminated)
  then show ?thesis
    using assms(2)
    by (simp add: split_content_of_def detect_newline_unterminated [OF assms(1)]
        py_strip_unpadded)
qed

lemma print_lines_join:
  assumes "nl = [LF] \<or> nl = [CR, LF]" and "plain_lines ls"
  shows "print_lines (Some nl) [] ls = join_lines nl ls"
proof -
  have "translate_write (Some nl) l = l" if "l \<in> set ls" for l
    using that assms(2) by (simp add: translate_write_no_LF plain_lines_def)
  moreover have "chosen_ending (Some nl) = nl"
    using assms(1) by (auto simp add: chosen_ending_def)
  ultimately show ?thesis
    by (simp add: print_lines_eq join_lines_def cong: map_cong)
qed

text \<open>
  Claim C1, as amended.  Let the old file be ASCII text: lines joined by one line ending
  (LF or CR LF), with or without that line ending after the last line, no line holding
  another carriage return or linefeed; a file without any line ending is empty or a
  single line that neither starts nor ends with whitespace, and its line ending counts
  as LF.  Let the new content be such lines as well.  Applying a diff from the old lines
  to the new lines (hunks in ascending order that lie on the old lines) writes exactly
  the new lines, each followed by that line ending.
\<close>

theorem round_trip:
  assumes ending: "nl = [LF] \<or> nl = [CR, LF]"
    and a: "plain_lines (init @ [final])" "ascii (concat (init @ [final]))"
    and no_ending: "init = [] \<Longrightarrow> nl = [LF] \<and> unpadded final"
    and b: "plain_lines b" "ascii (concat b)"
    and head: "header d = Some h"
    and old: "old_file_of repo_dir h = Some old_file" "old_file \<noteq> []"
    and content: "files w old_file = Some (join_lines nl init @ final)"
    and new: "new_path h = Some p" "p \<noteq> []"
    and diff: "diff_from 0 (init @ (if final = [] then [] else [final])) b (hunks d)"
    and writable: "can_write w (new_file_of repo_dir p)"
  shows "apply_patch repo_dir [d] w =
           Inr (w\<lparr>files := (files w)(new_file_of repo_dir p \<mapsto> join_lines nl b),
                  stdout := stdout w @ [''Patch applied successfully'']\<rparr>)"
proof -
  let ?a = "init @ (if final = [] then [] else [final])"
  let ?newline = "if init = [] then None else Some nl"
  have "read_original (Some old_file) w = Inr (?newline, ?a)"
  proof (cases "init = []")
    case True
    with a(1) no_ending have "plain_lines [final]" and "unpadded final" by simp_all
    then show ?thesis
      using True old(2) content
      by (simp add: read_original_def detect_newline_unterminated
          split_content_of_unterminated join_lines_def)
  next
    case False
    then show ?thesis
      using old(2) content
      by (simp add: read_original_def detect_newline_join [OF ending False a(1)]
          split_content_of_terminated [OF ending False a(1)])
  qed
  moreover have "apply_diff d ?a = Inr b"
    using diff by (rule apply_diff_diff_from)
  moreover have "print_lines ?newline [] b = join_lines nl b"
    using no_ending by (simp add: print_lines_None print_lines_join [OF ending b(1)])
  then have "write_file (new_file_of repo_dir p) ?newline b w =
      Inr (w\<lparr>files := (files w)(new_file_of repo_dir p \<mapsto> join_lines nl b)\<rparr>)"
    using writable by (simp add: write_file_def)
  ultimately have "apply_section repo_dir d w =
      Inr (w\<lparr>files := (files w)(new_file_of repo_dir p \<mapsto> join_lines nl b)\<rparr>)"
    using head old(1) new by (simp add: apply_section_def)
  then show ?thesis by (simp add: apply_patch_def)
qed

theorem round_trip_witness:
  "apply_patch ''r''
     [\<lparr>header = Some \<lparr>old_path = Some ''f'', new_path = Some ''f''\<rparr>,
       hunks = [\<lparr>old_start = 1, old_count = 3, new_start = 1, new_count = 3,
                 lines = [Context ''a'', Removed ''b'', Added ''x'', Context ''c'']\<rparr>]\<rparr>]
     \<lparr>files = [''r/f'' \<mapsto> ''a'' @ [LF] @ ''b'' @ [LF] @ ''c'' @ [LF]],
      can_write = (\<lambda>p. True), stdout = []\<rparr> =
   Inr \<lparr>files = [''r/f'' \<mapsto> ''a'' @ [LF] @ ''x'' @ [LF] @ ''c'' @ [LF]],
        can_write = (\<lambda>p. True), stdout = [''Patch applied successfully'']\<rparr> \<and>
   apply_patch ''r''
     [\<lparr>header = Some \<lparr>old_path = Some ''f'', new_path = Some ''f''\<rparr>,
       hunks = [\<lparr>old_start = 1, old_count = 2, new_start = 1, new_count = 3,
                 lines = [Context ''a'', Context ''b'', Added ''c'']\<rparr>]\<rparr>]
     \<lparr>files = [''r/f'' \<mapsto> ''a'' @ [CR, LF] @ ''b''],
      can_write = (\<lambda>p. True), stdout = []\<rparr> =
   Inr \<lparr>files = [''r/f'' \<mapsto> ''a'' @ [CR, LF] @ ''b'' @ [CR, LF] @ ''c'' @ [CR, LF]],
        can_write = (\<lambda>p. True), stdout = [''Patch applied successfully'']\<rparr> \<and>
   apply_patch ''r''
     [\<lparr>header = Some \<lparr>old_path = Some ''f'', new_path = Some ''f''\<rparr>,
       hunks = [\<lparr>old_start = 1, old_count = 1, new_start = 1, new_count = 1,
                 lines = [Removed ''x'', Added ''y'']\<rparr>]\<rparr>]
     \<lparr>files = [''r/f'' \<mapsto> ''x''], can_write = (\<lambda>p. True), stdout = []\<rparr> =
   Inr \<lparr>files = [''r/f'' \<mapsto> ''y'' @ [LF]],
        can_write = (\<lambda>p. True), stdout = [''Patch applied successfully'']\<rparr> \<and>
   apply_patch ''r''
     [\<lparr>header = Some \<lparr>old_path = Some ''f'', new_path = Some ''f''\<rparr>,
       hunks = [\<lparr>old_start = 0, old_count = 0, new_start = 1, new_count = 1,
                 lines = [Added ''hello'']\<rparr>]\<rparr>]
     \<lparr>files = [''r/f'' \<mapsto> []], can_write = (\<lambda>p. True), stdout = []\<rparr> =
   Inr \<lparr>files = [''r/f'' \<mapsto> ''hello'' @ [LF]],
        can_write = (\<lambda>p. True), stdout = [''Patch applied successfully'']\<rparr>"
proof -
  let ?paths = "\<lparr>old_path = Some ''f'', new_path = Some ''f''\<rparr>"
  let ?h1 = "\<lparr>old_start = 1, old_count = 3, new_start = 1, new_count = 3,
                 lines = [Context ''a'', Removed ''b'', Added ''x'', Context ''c'']\<rparr>"
  let ?h2 = "\<lparr>old_start = 1, old_count = 2, new_start = 1, new_count = 3,
                 lines = [Context ''a'', Context ''b'', Added ''c'']\<rparr>"
  let ?h3 = "\<lparr>old_start = 1, old_count = 1, new_start = 1, new_count = 1,
                 lines = [Removed ''x'', Added ''y'']\<rparr>"
  let ?h4 = "\<lparr>old_start = 0, old_count = 0, new_start = 1, new_count = 1,
                 lines = [Added ''hello'']\<rparr>"
  let ?w1 = "\<lparr>files = [''r/f'' \<mapsto> ''a'' @ [LF] @ ''b'' @ [LF] @ ''c'' @ [LF]],
      can_write = (\<lambda>p. True), stdout = []\<rparr>"
  let ?w2 = "\<lparr>files = [''r/f'' \<mapsto> ''a'' @ [CR, LF] @ ''b''],
      can_write = (\<lambda>p. True), stdout = []\<rparr>"
  let ?w3 = "\<lparr>files = [''r/f'' \<mapsto> ''x''], can_write = (\<lambda>p. True), stdout = []\<rparr>"
  let ?w4 = "\<lparr>files = [''r/f'' \<mapsto> []], can_write = (\<lambda>p. True), stdout = []\<rparr>"
  note evaluate = plain_lines_def ascii_def unpadded_def is_space_def join_lines_def
    old_file_of_def new_file_of_def os_path_join_def py_lstrip_def suffix_def
  have path: "new_file_of ''r'' ''f'' = ''r/f''"
    by (simp add: evaluate)
  have "diff_from 0 ([] @ old_lines (lines ?h1) @ []) ([] @ new_lines (lines ?h1) @ []) [?h1]"
    by (rule diff_from.next_hunk) (simp_all add: diff_from.no_hunk)
  then have diff1: "diff_from 0 [''a'', ''b'', ''c''] [''a'', ''x'', ''c''] [?h1]"
    by simp
  have "diff_from 0 ([] @ old_lines (lines ?h2) @ []) ([] @ new_lines (lines ?h2) @ []) [?h2]"
    by (rule diff_from.next_hunk) (simp_all add: diff_from.no_hunk)
  then have diff2: "diff_from 0 [''a'', ''b''] [''a'', ''b'', ''c''] [?h2]"
    by simp
  have "diff_from 0 ([] @ old_lines (lines ?h3) @ []) ([] @ new_lines (lines ?h3) @ []) [?h3]"
    by (rule diff_from.next_hunk) (simp_all add: diff_from.no_hunk)
  then have diff3: "diff_from 0 [''x''] [''y''] [?h3]"
    by simp
  have "diff_from 0 [] (new_lines (lines ?h4) @ []) [?h4]"
    by (rule diff_from.top_insertion) (simp_all add: diff_from.no_hunk)
  then have diff4: "diff_from 0 [] [''hello''] [?h4]"
    by simp
  have terminated: "apply_patch ''r'' [\<lparr>header = Some ?paths, hunks = [?h1]\<rparr>] ?w1 =
      Inr (?w1\<lparr>files := (files ?w1)(new_file_of ''r'' ''f'' \<mapsto>
                   join_lines [LF] [''a'', ''x'', ''c'']),
               stdout := stdout ?w1 @ [''Patch applied successfully'']\<rparr>)"
  proof (rule round_trip [where init = "[''a'', ''b'', ''c'']" and final = "[]"
        and h = ?paths and old_file = "''r/f''"])
    show "diff_from 0 ([''a'', ''b'', ''c''] @ (if [] = [] then [] else [[]]))
        [''a'', ''x'', ''c''] (hunks \<lparr>header = Some ?paths, hunks = [?h1]\<rparr>)"
      using diff1 by simp
  qed (simp_all add: evaluate)
  have crlf: "apply_patch ''r'' [\<lparr>header = Some ?paths, hunks = [?h2]\<rparr>] ?w2 =
      Inr (?w2\<lparr>files := (files ?w2)(new_file_of ''r'' ''f'' \<mapsto>
                   join_lines [CR, LF] [''a'', ''b'', ''c'']),
               stdout := stdout ?w2 @ [''Patch applied successfully'']\<rparr>)"
  proof (rule round_trip [where init = "[''a'']" and final = "''b''"
        and h = ?paths and old_file = "''r/f''"])
    show "diff_from 0 ([''a''] @ (if ''b'' = [] then [] else [''b'']))
        [''a'', ''b'', ''c''] (hunks \<lparr>header = Some ?paths, hunks = [?h2]\<rparr>)"
      using diff2 by simp
  qed (simp_all add: evaluate)
  have single: "apply_patch ''r'' [\<lparr>header = Some ?paths, hunks = [?h3]\<rparr>] ?w3 =
      Inr (?w3\<lparr>files := (files ?w3)(new_file_of ''r'' ''f'' \<mapsto> join_lines [LF] [''y'']),
               stdout := stdout ?w3 @ [''Patch applied successfully'']\<rparr>)"
  proof (rule round_trip [where init = "[]" and final = "''x''"
        and h = ?paths and old_file = "''r/f''"])
    show "diff_from 0 ([] @ (if ''x'' = [] then [] else [''x'']))
        [''y''] (hunks \<lparr>header = Some ?paths, hunks = [?h3]\<rparr>)"
      using diff3 by simp
  qed (simp_all add: evaluate)
  have empty: "apply_patch ''r'' [\<lparr>header = Some ?paths, hunks = [?h4]\<rparr>] ?w4 =
      Inr (?w4\<lparr>files := (files ?w4)(new_file_of ''r'' ''f'' \<mapsto> join_lines [LF] [''hello'']),
               stdout := stdout ?w4 @ [''Patch applied successfully'']\<rparr>)"
  proof (rule round_trip [where init = "[]" and final = "[]"
        and h = ?paths and old_file = "''r/f''"])
    show "diff_from 0 ([] @ (if [] = [] then [] else [[]]))
        [''hello''] (hunks \<lparr>header = Some ?paths, hunks = [?h4]\<rparr>)"
      using diff4 by simp
  qed (simp_all add: evaluate)
  from terminated crlf single empty show ?thesis
    by (simp add: path join_lines_def)
qed

text \<open>
  The claim as the spec states it fails for a new content without a final line ending:
  from the old file \<open>a\<close>, LF and the diff to the single line \<open>b\<close>, the file written
  is \<open>b\<close>, LF.
\<close>

theorem round_trip_counterexample:
  "diff_from 0 [''a''] [''b'']
     [\<lparr>old_start = 1, old_count = 1, new_start = 1, new_count = 1,
       lines = [Removed ''a'', Added ''b'']\<rparr>] \<and>
   apply_patch ''r''
     [\<lparr>header = Some \<lparr>old_path = Some ''f'', new_path = Some ''f''\<rparr>,
       hunks = [\<lparr>old_start = 1, old_count = 1, new_start = 1, new_count = 1,
                 lines = [Removed ''a'', Added ''b'']\<rparr>]\<rparr>]
     \<lparr>files = [''r/f'' \<mapsto> ''a'' @ [LF]], can_write = (\<lambda>p. True), stdout = []\<rparr> =
   Inr \<lparr>files = [''r/f'' \<mapsto> ''b'' @ [LF]], can_write = (\<lambda>p. True),
        stdout = [''Patch applied successfully'']\<rparr> \<and>
   ''b'' @ [LF] \<noteq> ''b''"
proof -
  let ?h = "\<lparr>old_start = 1, old_count = 1, new_start = 1, new_count = 1,
       lines = [Removed ''a'', Added ''b'']\<rparr>"
  have "diff_from 0 ([] @ old_lines (lines ?h) @ []) ([] @ new_lines (lines ?h) @ []) [?h]"
    by (rule diff_from.next_hunk) (simp_all add: diff_from.no_hunk)
  then have "diff_from 0 [''a''] [''b''] [?h]" by simp
  then show ?thesis
    by (simp add: apply_patch_def apply_section_def old_file_of_def read_original_def
        apply_diff_def write_file_def new_file_of_def os_path_join_def py_lstrip_def suffix_def
        translate_write_def split_content_of_def detect_newline_def readlines_def py_strip_def)
qed

text \<open>
  Claim C6.  For a section whose old path is \<^verbatim>\<open>/dev/null\<close> there is no old file: the
  hunk applier gets the empty sequence of lines and the line ending is LF; a single
  hunk of the two Added lines \<open>hello\<close> and \<open>world\<close> then writes the new file with
  exactly \<open>hello\<close>, LF, \<open>world\<close>, LF.
\<close>

theorem creation_from_dev_null:
  assumes "header d = Some paths" and "old_path paths = Some ''/dev/null''"
  shows "old_file_of repo_dir paths = None \<and>
         read_original (old_file_of repo_dir paths) w = Inr (Some [LF], []) \<and>
         (new_path paths = Some p \<and> p \<noteq> [] \<and> can_write w (new_file_of repo_dir p) \<and>
          hunks d = [h] \<and> old_start h = 0 \<and> lines h = [Added ''hello'', Added ''world''] \<longrightarrow>
            apply_section repo_dir d w =
              Inr (w\<lparr>files := (files w)(new_file_of repo_dir p \<mapsto>
                     ''hello'' @ [LF] @ ''world'' @ [LF])\<rparr>))"
proof -
  have none: "old_file_of repo_dir paths = None"
    using assms(2) by (simp add: old_file_of_def)
  then have empty: "read_original (old_file_of repo_dir paths) w = Inr (Some [LF], [])"
    by (simp add: read_original_def)
  have "apply_section repo_dir d w =
      Inr (w\<lparr>files := (files w)(new_file_of repo_dir p \<mapsto> ''hello'' @ [LF] @ ''world'' @ [LF])\<rparr>)"
    if "new_path paths = Some p" "p \<noteq> []" "can_write w (new_file_of repo_dir p)"
      "hunks d = [h]" "old_start h = 0" "lines h = [Added ''hello'', Added ''world'']"
  proof -
    have "apply_diff d [] = Inr [''hello'', ''world'']"
      using that(4-6) by (simp add: apply_diff_def)
    then show ?thesis
      using that(1-3) empty assms(1)
      by (simp add: apply_section_def write_file_def translate_write_def)
  qed
  with none empty show ?thesis by blast
qed

theorem creation_from_dev_null_witness:
  "old_file_of ''r'' \<lparr>old_path = Some ''/dev/null'', new_path = Some ''newfile.txt''\<rparr> = None \<and>
   apply_section ''r''
     \<lparr>header = Some \<lparr>old_path = Some ''/dev/null'', new_path = Some ''newfile.txt''\<rparr>,
      hunks = [\<lparr>old_start = 0, old_count = 0, new_start = 1, new_count = 2,
                lines = [Added ''hello'', Added ''world'']\<rparr>]\<rparr>
     \<lparr>files = Map.empty, can_write = (\<lambda>p. True), stdout = []\<rparr> =
   Inr \<lparr>files = [''r/newfile.txt'' \<mapsto> ''hello'' @ [LF] @ ''world'' @ [LF]],
        can_write = (\<lambda>p. True), stdout = []\<rparr>"
proof -
  let ?h = "\<lparr>old_start = 0, old_count = 0, new_start = 1, new_count = 2,
                lines = [Added ''hello'', Added ''world'']\<rparr>"
  let ?paths = "\<lparr>old_path = Some ''/dev/null'', new_path = Some ''newfile.txt''\<rparr>"
  let ?d = "\<lparr>header = Some ?paths, hunks = [?h]\<rparr>"
  let ?w = "\<lparr>files = Map.empty, can_write = (\<lambda>p. True), stdout = []\<rparr>"
  have head: "header ?d = Some ?paths" by simp
  have dev_null: "old_path ?paths = Some ''/dev/null''" by simp
  have path: "new_file_of ''r'' ''newfile.txt'' = ''r/newfile.txt''"
    by (simp add: new_file_of_def os_path_join_def py_lstrip_def suffix_def)
  from creation_from_dev_null [OF head dev_null, of "''r''" ?w "''newfile.txt''" ?h]
  show ?thesis by (simp add: path)
qed

subsection \<open>Paths and original lines as the code computes them\<close>

text \<open>
  Claim C2 (the code differs).  \<^verbatim>\<open>lstrip('b/')\<close> removes every leading \<open>b\<close> and
  \<open>/\<close>, not the prefix \<open>b/\<close>: the new path \<open>b/build/x.py\<close> resolves to
  \<open>repo/uild/x.py\<close>, the path \<open>build/x.py\<close>, which has no prefix, is changed as well,
  and the prefix \<open>a/\<close> of an old path is not removed.
\<close>

theorem lstrip_is_not_prefix_removal:
  "py_lstrip ''b/'' ''b/build/x.py'' = ''uild/x.py'' \<and>
   new_file_of ''repo'' ''b/build/x.py'' = ''repo/uild/x.py'' \<and>
   new_file_of ''repo'' ''build/x.py'' = ''repo/uild/x.py'' \<and>
   old_file_of ''repo'' \<lparr>old_path = Some ''a/x.py'', new_path = Some ''b/x.py''\<rparr> =
   Some ''repo/a/x.py''"
  by (simp add: py_lstrip_def new_file_of_def old_file_of_def os_path_join_def suffix_def)

text \<open>
  Claim C8 (the code differs).  \<^verbatim>\<open>x.strip(newline)\<close> removes more than the detected
  line ending: with no line ending detected it removes all leading and trailing
  whitespace of the line, and with CR LF detected it removes every leading and trailing
  carriage return and linefeed.
\<close>

theorem strip_removes_more_than_the_line_ending:
  "detect_newline ''  x'' = None \<and> split_content_of ''  x'' = [''x''] \<and>
   detect_newline (''a'' @ [CR, CR, LF]) = Some [CR, LF] \<and>
   split_content_of (''a'' @ [CR, CR, LF]) = [''a'']"
  by (simp add: split_content_of_def detect_newline_def readlines_def py_strip_def is_space_def)

subsection \<open>load_resolver_output\<close>




end
